theory Spec2Isabelle
  imports Main "HOL-Library.Word"
begin

section \<open>The access-log writer of package log (log/log.go)\<close>

text \<open>
  The package wraps the writer of a response in a \<open>Writer\<close> that keeps a copy of every
  byte written, and prints one formatted line to the access logger when it is closed.
  The objects it works on are shared through pointers (the response holds the Writer,
  the Writer points back at the response and at the writer it wraps), so the embedding
  uses an explicit world: a store of responses, a store of Writers, the foreign sinks,
  the wall clock and the access log. Every function takes the world and returns the
  world it leaves behind.
\<close>

subsection \<open>Values\<close>

type_synonym byte = "8 word"

text \<open>A pointer is an address. Go's nil behaves like an address at which the store
  holds no object: dereferencing it panics.\<close>

type_synonym addr = nat

text \<open>A \<open>time.Time\<close> instant, as a number of nanoseconds.\<close>

type_synonym time = int

text \<open>A non-nil Go \<open>error\<close>; the interface value, which may be nil, is an
  \<open>error option\<close>.\<close>

datatype error = Error string

text \<open>The run-time panic of a nil pointer dereference, which is also what a method
  call on a nil interface value raises.\<close>

datatype panic = NilDereference

subsection \<open>Writers that are not of this package\<close>

text \<open>
  The writer at the end of a chain (the \<open>http.ResponseWriter\<close>, a file, a test
  recorder) is code the package does not know. It is an object with a state of its own:
  what its \<open>Write\<close> returns may depend on every call it has received so far, and on
  nothing else. Its state is therefore the list of the calls it has received, and its
  behaviour a function of that list. Whether its dynamic type has a \<open>Close\<close> method
  (implements \<open>io.Closer\<close>) is the presence of \<open>on_close\<close>. A foreign \<open>Write\<close> or
  \<open>Close\<close> is taken to return.
\<close>

datatype call = WriteCall "byte list" | CloseCall

record sink =
  history :: "call list"
  on_write :: "call list \<Rightarrow> byte list \<Rightarrow> int \<times> error option"
  on_close :: "(call list \<Rightarrow> error option) option"

definition sink_Write :: "sink \<Rightarrow> byte list \<Rightarrow> (int \<times> error option) \<times> sink" where
  "sink_Write k b = (on_write k (history k) b, k\<lparr>history := history k @ [WriteCall b]\<rparr>)"

definition sink_Close :: "sink \<Rightarrow> (error option \<times> sink) option" where
  "sink_Close k =
     (case on_close k of
        None \<Rightarrow> None
      | Some c \<Rightarrow> Some (c (history k), k\<lparr>history := history k @ [CloseCall]\<rparr>))"

text \<open>An \<open>io.Writer\<close> interface value: nil, a foreign sink, or a \<open>*Writer\<close> of this
  package.\<close>

datatype iowriter = NilWriter | SinkRef addr | WriterRef addr

subsection \<open>The data of the package\<close>

text \<open>
  \<open>type Formatter func(now time.Time, response *goyave.Response,
  request *goyave.Request, body []byte) string\<close>. The package hands the two pointers
  on and never looks behind the one to the request; what a formatter reads there is the
  framework's business. A formatter is taken to be a function that returns and changes
  nothing, as its documentation says: here it is a function of the four values it is
  called with.
\<close>

type_synonym Formatter = "time \<Rightarrow> addr \<Rightarrow> addr \<Rightarrow> byte list \<Rightarrow> string"

text \<open>\<open>type Writer struct\<close>, field by field.\<close>

record Writer =
  now :: time
  request :: addr
  writer :: iowriter
  response :: addr
  body :: "byte list"
  formatter :: Formatter

text \<open>Modelled from the spec: the framework's Response is not part of this file. The
  spec calls it a descriptor exposing an output sink, which a middleware can replace;
  the only part of it this package reads or writes is that sink.\<close>

record Response =
  active_writer :: iowriter

text \<open>
  The world. \<open>writers\<close> is the store of the \<open>Writer\<close> objects, the address of an
  object being its index; a new object gets the next index. Every address holds a
  foreign sink. \<open>access_log\<close> is what has been printed to \<open>goyave.AccessLogger\<close>, one
  entry for each \<open>Println\<close>. \<open>formatter_calls\<close> records the arguments of every call of
  a formatter, so that how often and with what a formatter was called can be stated.
\<close>

record world =
  wall_clock :: time
  responses :: "addr \<rightharpoonup> Response"
  writers :: "Writer list"
  sinks :: "addr \<Rightarrow> sink"
  access_log :: "string list"
  formatter_calls :: "(time \<times> addr \<times> addr \<times> byte list) list"

text \<open>What a call does: it does not return (\<open>None\<close>), it panics, or it returns a
  value; the last two leave a world behind.\<close>

type_synonym 'a outcome = "(panic \<times> world + 'a \<times> world) option"

definition writer_at :: "world \<Rightarrow> addr \<Rightarrow> Writer option" where
  "writer_at s p = (if p < length (writers s) then Some (writers s ! p) else None)"

definition set_writer_at :: "addr \<Rightarrow> Writer \<Rightarrow> world \<Rightarrow> world" where
  "set_writer_at p w s = s\<lparr>writers := (writers s)[p := w]\<rparr>"

definition set_sink :: "addr \<Rightarrow> sink \<Rightarrow> world \<Rightarrow> world" where
  "set_sink a k s = s\<lparr>sinks := (sinks s)(a := k)\<rparr>"

subsection \<open>The framework and the runtime, as far as the package uses them\<close>

text \<open>\<open>time.Now()\<close> reads the wall clock.\<close>

definition time_Now :: "world \<Rightarrow> time" where
  "time_Now s = wall_clock s"

text \<open>Modelled from the spec: \<open>response.Writer()\<close>, the current output sink of the
  response. A nil response panics.\<close>

definition Response_Writer :: "addr \<Rightarrow> world \<Rightarrow> panic + iowriter" where
  "Response_Writer r s =
     (case responses s r of
        None \<Rightarrow> Inl NilDereference
      | Some resp \<Rightarrow> Inr (active_writer resp))"

text \<open>Modelled from the spec: \<open>response.SetWriter(w)\<close> installs \<open>w\<close> as the active
  sink of the response.\<close>

definition Response_SetWriter :: "addr \<Rightarrow> iowriter \<Rightarrow> world \<Rightarrow> panic + world" where
  "Response_SetWriter r w s =
     (case responses s r of
        None \<Rightarrow> Inl NilDereference
      | Some resp \<Rightarrow> Inr (s\<lparr>responses := (responses s)(r \<mapsto> resp\<lparr>active_writer := w\<rparr>)\<rparr>))"

text \<open>Modelled from the spec: \<open>goyave.AccessLogger.Println(line)\<close>, the process-wide
  logger, which accepts a line of text.\<close>

definition AccessLogger_Println :: "string \<Rightarrow> world \<Rightarrow> world" where
  "AccessLogger_Println line s = s\<lparr>access_log := access_log s @ [line]\<rparr>"

subsection \<open>NewWriter, Write, Close\<close>

text \<open>\<open>NewWriter\<close> allocates the Writer; \<open>body\<close> is left nil, the empty slice.\<close>

definition NewWriter :: "addr \<Rightarrow> addr \<Rightarrow> Formatter \<Rightarrow> world \<Rightarrow> panic \<times> world + addr \<times> world" where
  "NewWriter resp req fmt s =
     (let t = time_Now s in
      case Response_Writer resp s of
        Inl e \<Rightarrow> Inl (e, s)
      | Inr wr \<Rightarrow>
          Inr (length (writers s),
               s\<lparr>writers := writers s @
                  [\<lparr>now = t, request = req, writer = wr, response = resp,
                    body = [], formatter = fmt\<rparr>]\<rparr>))"

text \<open>
  \<open>w.body = append(w.body, b...); return w.writer.Write(b)\<close>. The call on the
  interface value is dispatched on what it holds: a nil interface panics, a foreign sink
  runs its own \<open>Write\<close>, a Writer of this package runs this function again. Nothing
  in the types keeps a chain of Writers from running in a circle, in which case the call
  does not return.
\<close>

partial_function (option) Write :: "addr \<Rightarrow> byte list \<Rightarrow> world \<Rightarrow> (int \<times> error option) outcome" where
  "Write p b s =
     (case writer_at s p of
        None \<Rightarrow> Some (Inl (NilDereference, s))
      | Some w \<Rightarrow>
          (let s1 = set_writer_at p (w\<lparr>body := body w @ b\<rparr>) s in
           case writer w of
             NilWriter \<Rightarrow> Some (Inl (NilDereference, s1))
           | SinkRef a \<Rightarrow>
               (case sink_Write (sinks s1 a) b of
                  (res, k) \<Rightarrow> Some (Inr (res, set_sink a k s1)))
           | WriterRef q \<Rightarrow> Write q b s1))"

text \<open>The first statement of \<open>Close\<close>: the formatter is called on the four fields and
  its line is printed.\<close>

definition log_entry :: "Writer \<Rightarrow> world \<Rightarrow> world" where
  "log_entry w s =
     AccessLogger_Println (formatter w (now w) (response w) (request w) (body w))
       (s\<lparr>formatter_calls := formatter_calls s @ [(now w, response w, request w, body w)]\<rparr>)"

text \<open>
  \<open>if wr, ok := w.writer.(io.Closer); ok { return wr.Close() }; return nil\<close>. The
  assertion fails on a nil interface and on a sink without \<open>Close\<close>; it succeeds on a
  \<open>*Writer\<close>, which is an \<open>io.Closer\<close>.
\<close>

partial_function (option) Close :: "addr \<Rightarrow> world \<Rightarrow> (error option) outcome" where
  "Close p s =
     (case writer_at s p of
        None \<Rightarrow> Some (Inl (NilDereference, s))
      | Some w \<Rightarrow>
          (let s1 = log_entry w s in
           case writer w of
             NilWriter \<Rightarrow> Some (Inr (None, s1))
           | SinkRef a \<Rightarrow>
               (case sink_Close (sinks s1 a) of
                  None \<Rightarrow> Some (Inr (None, s1))
                | Some (err, k) \<Rightarrow> Some (Inr (err, set_sink a k s1)))
           | WriterRef q \<Rightarrow> Close q s1))"

subsection \<open>Middleware\<close>

text \<open>A \<open>goyave.Handler\<close> is a \<open>func(*Response, *Request)\<close>, a \<open>goyave.Middleware\<close> a
  \<open>func(Handler) Handler\<close>.\<close>

type_synonym Handler = "addr \<Rightarrow> addr \<Rightarrow> world \<Rightarrow> unit outcome"

definition Middleware :: "Formatter \<Rightarrow> Handler \<Rightarrow> Handler" where
  "Middleware fmt next resp req s =
     (case NewWriter resp req fmt s of
        Inl e \<Rightarrow> Some (Inl e)
      | Inr (logWriter, s1) \<Rightarrow>
          (case Response_SetWriter resp (WriterRef logWriter) s1 of
             Inl e \<Rightarrow> Some (Inl (e, s1))
           | Inr s2 \<Rightarrow> next resp req s2))"

text \<open>\<open>CommonLogFormatter\<close> and \<open>CombinedLogFormatter\<close> are defined in another file of
  the package; the two wrappers take them from a record.\<close>

record formatters =
  CommonLogFormatter :: Formatter
  CombinedLogFormatter :: Formatter

definition CommonLogMiddleware :: "formatters \<Rightarrow> Handler \<Rightarrow> Handler" where
  "CommonLogMiddleware fs = Middleware (CommonLogFormatter fs)"

definition CombinedLogMiddleware :: "formatters \<Rightarrow> Handler \<Rightarrow> Handler" where
  "CombinedLogMiddleware fs = Middleware (CombinedLogFormatter fs)"

subsection \<open>Clients and stacks of Writers\<close>

text \<open>The world an outcome leaves behind.\<close>

definition after :: "panic \<times> world + 'a \<times> world \<Rightarrow> world" where
  "after y = (case y of Inl (e, s) \<Rightarrow> s | Inr (r, s) \<Rightarrow> s)"

text \<open>A client that calls \<open>Write\<close> with one slice after the other. It goes on whatever
  a call returns, also after a panic that has been recovered from; it gets nowhere only
  when a call does not return.\<close>

fun Writes :: "addr \<Rightarrow> byte list list \<Rightarrow> world \<Rightarrow> world option" where
  "Writes p [] s = Some s"
| "Writes p (b # bs) s =
     (case Write p b s of
        None \<Rightarrow> None
      | Some y \<Rightarrow> Writes p bs (after y))"

text \<open>
  \<open>link s p\<close> is the writer that the Writer at \<open>p\<close> wraps. \<open>stack L p n e\<close> says
  that \<open>n\<close> Writers are stacked from \<open>p\<close> downwards, the last of them wrapping \<open>e\<close>,
  which is nil, a foreign sink, or a \<open>*Writer\<close> that is nil. The stack of a Writer made
  by \<open>NewWriter\<close> is finite, since it wraps a writer that existed before it.
\<close>

definition link :: "world \<Rightarrow> addr \<Rightarrow> iowriter option" where
  "link s p = map_option writer (writer_at s p)"

inductive stack :: "(addr \<Rightarrow> iowriter option) \<Rightarrow> addr \<Rightarrow> nat \<Rightarrow> iowriter \<Rightarrow> bool" where
  stack_nil: "L p = None \<Longrightarrow> stack L p 0 (WriterRef p)"
| stack_on_nil: "L p = Some NilWriter \<Longrightarrow> stack L p 1 NilWriter"
| stack_on_sink: "L p = Some (SinkRef a) \<Longrightarrow> stack L p 1 (SinkRef a)"
| stack_on_writer: "L p = Some (WriterRef q) \<Longrightarrow> stack L q n e \<Longrightarrow> stack L p (Suc n) e"

code_pred stack .

subsection \<open>A world to run the functions in\<close>

text \<open>Three foreign sinks: one without \<open>Close\<close>, one whose \<open>Close\<close> fails, one whose
  \<open>Write\<close> writes one byte and fails. Two responses, at 7 and 9. \<open>demo_started\<close>,
  \<open>demo_written_once\<close>, \<open>demo_written\<close> and \<open>demo_closed\<close> are the worlds after
  \<open>NewWriter\<close> on response 7, after writing the bytes 1 and 2, after writing the byte 3
  as well, and after \<open>Close\<close> at a later time. In \<open>demo_stacked\<close> a Writer wraps a
  Writer. \<open>demo_handler bs\<close> is a handler that writes the slices \<open>bs\<close> to the Writer
  installed in the response and closes that Writer; \<open>demo_first\<close> and \<open>demo_second\<close>
  are the worlds after a first request on response 7 and a second, later one on response
  9, both handled by it behind the middleware. The worlds \<open>demo_twice_\<close>... are those
  of a second Writer made for response 7 when that response already carries the first:
  after \<open>NewWriter\<close>, after writing the bytes 1 and 2, after \<open>Close\<close>, and after
  \<open>Close\<close> with nothing written.\<close>

definition plain_sink :: sink where
  "plain_sink = \<lparr>history = [], on_write = (\<lambda>h b. (int (length b), None)), on_close = None\<rparr>"

definition closing_sink :: sink where
  "closing_sink = \<lparr>history = [], on_write = (\<lambda>h b. (int (length b), None)),
     on_close = Some (\<lambda>h. Some (Error ''close failed''))\<rparr>"

definition broken_sink :: sink where
  "broken_sink = \<lparr>history = [], on_write = (\<lambda>h b. (1, Some (Error ''broken pipe''))),
     on_close = None\<rparr>"

definition demo_formatter :: Formatter where
  "demo_formatter t r q b = replicate (length b) (CHR ''#'')"

definition demo_writer :: "iowriter \<Rightarrow> Writer" where
  "demo_writer wr = \<lparr>now = 1000, request = 8, writer = wr, response = 7, body = [],
     formatter = demo_formatter\<rparr>"

definition demo_sinks :: "addr \<Rightarrow> sink" where
  "demo_sinks = (\<lambda>a. plain_sink)(3 := closing_sink, 4 := broken_sink)"

definition demo_world :: world where
  "demo_world = \<lparr>wall_clock = 1000,
     responses = [7 \<mapsto> \<lparr>active_writer = SinkRef 3\<rparr>, 9 \<mapsto> \<lparr>active_writer = SinkRef 5\<rparr>],
     writers = [], sinks = demo_sinks, access_log = [], formatter_calls = []\<rparr>"

definition demo_started :: world where
  "demo_started = demo_world\<lparr>writers := [demo_writer (SinkRef 3)]\<rparr>"

definition demo_written_once :: world where
  "demo_written_once = demo_world
     \<lparr>writers := [(demo_writer (SinkRef 3))\<lparr>body := [1, 2]\<rparr>],
      sinks := demo_sinks(3 := closing_sink\<lparr>history := [WriteCall [1, 2]]\<rparr>)\<rparr>"

definition demo_written :: world where
  "demo_written = demo_world
     \<lparr>writers := [(demo_writer (SinkRef 3))\<lparr>body := [1, 2, 3]\<rparr>],
      sinks := demo_sinks(3 := closing_sink\<lparr>history := [WriteCall [1, 2], WriteCall [3]]\<rparr>)\<rparr>"

definition demo_closed :: world where
  "demo_closed = demo_world
     \<lparr>wall_clock := 2000,
      writers := [(demo_writer (SinkRef 3))\<lparr>body := [1, 2, 3]\<rparr>],
      sinks := demo_sinks
        (3 := closing_sink\<lparr>history := [WriteCall [1, 2], WriteCall [3], CloseCall]\<rparr>),
      access_log := [''###''],
      formatter_calls := [(1000, 7, 8, [1, 2, 3])]\<rparr>"

definition demo_handler :: "byte list list \<Rightarrow> Handler" where
  "demo_handler bs r q s =
     (case Response_Writer r s of
        Inr (WriterRef p) \<Rightarrow>
          (case Writes p bs s of
             None \<Rightarrow> None
           | Some s1 \<Rightarrow>
               (case Close p s1 of
                  None \<Rightarrow> None
                | Some (Inl e) \<Rightarrow> Some (Inl e)
                | Some (Inr (err, s2)) \<Rightarrow> Some (Inr ((), s2))))
      | _ \<Rightarrow> Some (Inr ((), s)))"

definition demo_installed :: world where
  "demo_installed = demo_started
     \<lparr>responses := (responses demo_world)(7 \<mapsto> \<lparr>active_writer = WriterRef 0\<rparr>)\<rparr>"

definition demo_first :: world where
  "demo_first = demo_world
     \<lparr>responses := (responses demo_world)(7 \<mapsto> \<lparr>active_writer = WriterRef 0\<rparr>),
      writers := [(demo_writer (SinkRef 3))\<lparr>body := [1, 2]\<rparr>],
      sinks := demo_sinks(3 := closing_sink\<lparr>history := [WriteCall [1, 2], CloseCall]\<rparr>),
      access_log := [''##''],
      formatter_calls := [(1000, 7, 8, [1, 2])]\<rparr>"

definition demo_second :: world where
  "demo_second = demo_world
     \<lparr>wall_clock := 2000,
      responses := (responses demo_world)
        (7 \<mapsto> \<lparr>active_writer = WriterRef 0\<rparr>, 9 \<mapsto> \<lparr>active_writer = WriterRef 1\<rparr>),
      writers := [(demo_writer (SinkRef 3))\<lparr>body := [1, 2]\<rparr>,
        \<lparr>now = 2000, request = 10, writer = SinkRef 5, response = 9, body = [3],
          formatter = demo_formatter\<rparr>],
      sinks := demo_sinks
        (3 := closing_sink\<lparr>history := [WriteCall [1, 2], CloseCall]\<rparr>,
         5 := plain_sink\<lparr>history := [WriteCall [3]]\<rparr>),
      access_log := [''##'', ''#''],
      formatter_calls := [(1000, 7, 8, [1, 2]), (2000, 9, 10, [3])]\<rparr>"

definition demo_twice_started :: world where
  "demo_twice_started = demo_installed
     \<lparr>writers := [demo_writer (SinkRef 3), demo_writer (WriterRef 0)]\<rparr>"

definition demo_twice_written :: world where
  "demo_twice_written = demo_installed
     \<lparr>writers := [(demo_writer (SinkRef 3))\<lparr>body := [1, 2]\<rparr>,
        (demo_writer (WriterRef 0))\<lparr>body := [1, 2]\<rparr>],
      sinks := demo_sinks(3 := closing_sink\<lparr>history := [WriteCall [1, 2]]\<rparr>)\<rparr>"

definition demo_twice_closed :: world where
  "demo_twice_closed = demo_twice_written
     \<lparr>sinks := demo_sinks(3 := closing_sink\<lparr>history := [WriteCall [1, 2], CloseCall]\<rparr>),
      access_log := [''##'', ''##''],
      formatter_calls := [(1000, 7, 8, [1, 2]), (1000, 7, 8, [1, 2])]\<rparr>"

definition demo_twice_closed_unwritten :: world where
  "demo_twice_closed_unwritten = demo_twice_started
     \<lparr>sinks := demo_sinks(3 := closing_sink\<lparr>history := [CloseCall]\<rparr>),
      access_log := [[], []],
      formatter_calls := [(1000, 7, 8, []), (1000, 7, 8, [])]\<rparr>"

definition demo_stacked :: world where
  "demo_stacked = demo_world\<lparr>writers := [demo_writer (SinkRef 4), demo_writer (WriterRef 0)]\<rparr>"

section \<open>Properties\<close>

subsection \<open>Auxiliary facts\<close>

lemma after_simps [simp]: "after (Inl (e, s)) = s" "after (Inr (r, s)) = s"
  by (simp_all add: after_def)

text \<open>A Writer heads one stack only.\<close>

lemma stack_step:
  "stack L p m e \<Longrightarrow> L p = Some (WriterRef q) \<Longrightarrow> \<exists>k. m = Suc k \<and> stack L q k e"
  by (erule stack.cases) simp_all

lemma stack_end:
  "stack L p m e \<Longrightarrow> L p = Some w \<Longrightarrow> \<forall>q. w \<noteq> WriterRef q \<Longrightarrow> m = 1 \<and> e = w"
  by (erule stack.cases) auto

lemma stack_none: "stack L p m e \<Longrightarrow> L p = None \<Longrightarrow> m = 0 \<and> e = WriterRef p"
  by (erule stack.cases) simp_all

lemma stack_fun: "stack L p n e \<Longrightarrow> stack L p m e' \<Longrightarrow> n = m \<and> e = e'"
proof (induction arbitrary: m e' rule: stack.induct)
  case (stack_nil L p)
  then show ?case using stack_none by fastforce
next
  case (stack_on_nil L p)
  then show ?case using stack_end [of L p m e' NilWriter] by simp
next
  case (stack_on_sink L p a)
  then show ?case using stack_end [of L p m e' "SinkRef a"] by simp
next
  case (stack_on_writer L p q n e)
  from stack_step [OF stack_on_writer.prems stack_on_writer.hyps(1)]
  obtain k where k: "m = Suc k" "stack L q k e'" by blast
  from stack_on_writer.IH [OF k(2)] k(1) show ?case by simp
qed

text \<open>Induction over a call of \<open>Write\<close> or \<open>Close\<close> that has returned.\<close>

lemmas Write_induct = Write.raw_induct [rotated 1, consumes 1, case_names step]
lemmas Close_induct = Close.raw_induct [rotated 1, consumes 1, case_names step]

text \<open>What the updates of the world leave alone.\<close>

lemma set_sink_fields [simp]:
  "wall_clock (set_sink a k s) = wall_clock s"
  "responses (set_sink a k s) = responses s"
  "writers (set_sink a k s) = writers s"
  "access_log (set_sink a k s) = access_log s"
  "formatter_calls (set_sink a k s) = formatter_calls s"
  "sinks (set_sink a k s) = (sinks s)(a := k)"
  "writer_at (set_sink a k s) = writer_at s"
  by (simp_all add: set_sink_def writer_at_def fun_eq_iff)

lemma set_writer_at_fields [simp]:
  "wall_clock (set_writer_at p w s) = wall_clock s"
  "responses (set_writer_at p w s) = responses s"
  "sinks (set_writer_at p w s) = sinks s"
  "access_log (set_writer_at p w s) = access_log s"
  "formatter_calls (set_writer_at p w s) = formatter_calls s"
  "length (writers (set_writer_at p w s)) = length (writers s)"
  by (simp_all add: set_writer_at_def)

lemma log_entry_fields [simp]:
  "wall_clock (log_entry w s) = wall_clock s"
  "responses (log_entry w s) = responses s"
  "writers (log_entry w s) = writers s"
  "sinks (log_entry w s) = sinks s"
  "access_log (log_entry w s) =
     access_log s @ [formatter w (now w) (response w) (request w) (body w)]"
  "formatter_calls (log_entry w s) =
     formatter_calls s @ [(now w, response w, request w, body w)]"
  "writer_at (log_entry w s) = writer_at s"
  by (simp_all add: log_entry_def AccessLogger_Println_def writer_at_def fun_eq_iff)

lemma writer_at_set_writer_at:
  "writer_at (set_writer_at p w s) x =
     (if x = p \<and> p < length (writers s) then Some w else writer_at s x)"
  by (simp add: writer_at_def set_writer_at_def)

lemma link_set_body:
  "writer_at s p = Some w \<Longrightarrow> link (set_writer_at p (w\<lparr>body := bs\<rparr>) s) = link s"
  by (rule ext) (auto simp: link_def writer_at_def set_writer_at_def nth_list_update split: if_splits)

lemma link_set_sink [simp]: "link (set_sink a k s) = link s"
  by (rule ext) (simp add: link_def)

lemma link_log_entry [simp]: "link (log_entry w s) = link s"
  by (rule ext) (simp add: link_def)

text \<open>\<open>NewWriter\<close>, when the response is not nil.\<close>

lemma NewWriter_Inr:
  assumes "NewWriter r q f s0 = Inr (p, s1)"
  shows "\<exists>resp. responses s0 r = Some resp \<and> p = length (writers s0) \<and>
     s1 = s0\<lparr>writers := writers s0 @
        [\<lparr>now = wall_clock s0, request = q, writer = active_writer resp, response = r,
          body = [], formatter = f\<rparr>]\<rparr>"
  using assms
  by (auto simp: NewWriter_def Response_Writer_def time_Now_def split: option.splits)

lemma NewWriter_writer_at:
  assumes "NewWriter r q f s0 = Inr (p, s1)"
  shows "\<exists>wr. Response_Writer r s0 = Inr wr \<and> writer_at s1 p =
     Some \<lparr>now = wall_clock s0, request = q, writer = wr, response = r,
          body = [], formatter = f\<rparr>"
  using assms
  by (auto simp: NewWriter_def Response_Writer_def time_Now_def writer_at_def split: option.splits)

text \<open>\<open>Write\<close>, case by case.\<close>

lemma Write_None: "writer_at s p = None \<Longrightarrow> Write p b s = Some (Inl (NilDereference, s))"
  by (simp add: Write.simps)

lemma Write_NilWriter:
  "writer_at s p = Some w \<Longrightarrow> writer w = NilWriter \<Longrightarrow>
   Write p b s = Some (Inl (NilDereference, set_writer_at p (w\<lparr>body := body w @ b\<rparr>) s))"
  by (simp add: Write.simps Let_def)

lemma Write_SinkRef:
  "writer_at s p = Some w \<Longrightarrow> writer w = SinkRef a \<Longrightarrow>
   Write p b s =
     Some (Inr (fst (sink_Write (sinks s a) b),
       set_sink a (snd (sink_Write (sinks s a) b))
         (set_writer_at p (w\<lparr>body := body w @ b\<rparr>) s)))"
  by (simp add: Write.simps Let_def split: prod.splits)

lemma Write_WriterRef:
  "writer_at s p = Some w \<Longrightarrow> writer w = WriterRef q \<Longrightarrow>
   Write p b s = Write q b (set_writer_at p (w\<lparr>body := body w @ b\<rparr>) s)"
  by (subst Write.simps) (simp add: Let_def)

text \<open>A call of \<open>Write\<close> that comes back has run down a finite stack; it has touched
  nothing but bodies and sinks; it has left alone every Writer that heads a longer stack
  than the one it was called on, and so the Writer it was called on is changed by its own
  \<open>append\<close> only.\<close>

lemma Write_returns_stack:
  assumes "Write p b s = Some y"
  shows "\<exists>n e. stack (link s) p n e"
  using assms
proof (induction rule: Write_induct)
  case (step Write p b s y)
  show ?case
  proof (cases "writer_at s p")
    case None
    then have "link s p = None" by (simp add: link_def)
    then show ?thesis by (blast intro: stack.intros)
  next
    case (Some w)
    then have lp: "link s p = Some (writer w)" by (simp add: link_def)
    show ?thesis
    proof (cases "writer w")
      case NilWriter
      with lp show ?thesis by (auto intro: stack.intros)
    next
      case (SinkRef a)
      with lp show ?thesis by (auto intro: stack.intros)
    next
      case (WriterRef q)
      with step(2) Some have "Write q b (set_writer_at p (w\<lparr>body := body w @ b\<rparr>) s) = Some y"
        by (simp add: Let_def)
      from step(1)[OF this] Some obtain n e where "stack (link s) q n e"
        by (auto simp: link_set_body)
      with lp WriterRef show ?thesis by (auto intro: stack.intros)
    qed
  qed
qed

lemma Write_frame:
  assumes "Write p b s = Some y"
  shows "wall_clock (after y) = wall_clock s \<and> responses (after y) = responses s \<and>
     access_log (after y) = access_log s \<and> formatter_calls (after y) = formatter_calls s \<and>
     length (writers (after y)) = length (writers s) \<and> link (after y) = link s"
  using assms
proof (induction rule: Write_induct)
  case (step Write p b s y)
  show ?case
  proof (cases "writer_at s p")
    case None
    with step(2) show ?thesis by auto
  next
    case (Some w)
    let ?s1 = "set_writer_at p (w\<lparr>body := body w @ b\<rparr>) s"
    have s1: "wall_clock ?s1 = wall_clock s" "responses ?s1 = responses s"
      "access_log ?s1 = access_log s" "formatter_calls ?s1 = formatter_calls s"
      "length (writers ?s1) = length (writers s)"
      by simp_all
    have s1l: "link ?s1 = link s"
      using Some by (rule link_set_body)
    show ?thesis
    proof (cases "writer w")
      case NilWriter
      with step(2) Some s1 s1l show ?thesis by (auto simp: Let_def)
    next
      case (SinkRef a)
      with step(2) Some s1 s1l show ?thesis
        by (auto simp: Let_def split: prod.splits)
    next
      case (WriterRef q)
      with step(2) Some have "Write q b ?s1 = Some y" by (simp add: Let_def)
      from step(1)[OF this] s1 s1l show ?thesis by simp
    qed
  qed
qed


lemma writer_at_link: "writer_at s p = Some w \<Longrightarrow> link s p = Some (writer w)"
  by (simp add: link_def)

lemma link_None: "link s p = None \<longleftrightarrow> writer_at s p = None"
  by (simp add: link_def)

lemma link_Some: "link s p = Some x \<Longrightarrow> \<exists>w. writer_at s p = Some w \<and> writer w = x"
  by (auto simp: link_def)

lemma stack_neq: "stack L p n e \<Longrightarrow> stack L x m e' \<Longrightarrow> n < m \<Longrightarrow> x \<noteq> p"
  using stack_fun by fastforce

lemma Write_above:
  assumes "stack L p n e" and "link s = L" and "Write p b s = Some y"
    and "stack L x m e'" and "n < m"
  shows "writer_at (after y) x = writer_at s x"
  using assms
proof (induction arbitrary: s y rule: stack.induct)
  case (stack_nil L p)
  then have "writer_at s p = None" by (simp add: link_None [symmetric])
  with stack_nil.prems(2) show ?case by (auto simp: Write.simps)
next
  case (stack_on_nil L p)
  then obtain w where w: "writer_at s p = Some w" "writer w = NilWriter"
    using link_Some by blast
  have "x \<noteq> p"
    using stack_neq [OF stack.stack_on_nil [of L p, OF stack_on_nil.hyps] stack_on_nil.prems(3)]
      stack_on_nil.prems(4) by simp
  with w stack_on_nil.prems(2) show ?case
    by (auto simp: Write.simps Let_def writer_at_set_writer_at)
next
  case (stack_on_sink L p a)
  then obtain w where w: "writer_at s p = Some w" "writer w = SinkRef a"
    using link_Some by blast
  have "x \<noteq> p"
    using stack_neq [OF stack.stack_on_sink [of L p a, OF stack_on_sink.hyps] stack_on_sink.prems(3)]
      stack_on_sink.prems(4) by simp
  with w stack_on_sink.prems(2) show ?case
    by (auto simp: Write.simps Let_def writer_at_set_writer_at split: prod.splits)
next
  case (stack_on_writer L p q n e)
  from stack_on_writer.hyps(1) stack_on_writer.prems
  obtain w where w: "writer_at s p = Some w" "writer w = WriterRef q"
    using link_Some by blast
  let ?s1 = "set_writer_at p (w\<lparr>body := body w @ b\<rparr>) s"
  have l1: "link ?s1 = L"
    using link_set_body [OF w(1)] stack_on_writer.prems(1) by simp
  have y: "Write q b ?s1 = Some y"
    using stack_on_writer.prems(2) w by (simp add: Write.simps Let_def)
  have "x \<noteq> p"
    using stack_neq [OF stack.stack_on_writer [of L p q n e, OF stack_on_writer.hyps] stack_on_writer.prems(3)]
      stack_on_writer.prems(4) by simp
  moreover have "n < m" using stack_on_writer.prems(4) by simp
  ultimately show ?case
    using stack_on_writer.IH [OF l1 y stack_on_writer.prems(3)]
    by (simp add: writer_at_set_writer_at)
qed

lemma Write_self:
  assumes "writer_at s p = Some w" and "Write p b s = Some y"
  shows "writer_at (after y) p = Some (w\<lparr>body := body w @ b\<rparr>)"
proof -
  let ?s1 = "set_writer_at p (w\<lparr>body := body w @ b\<rparr>) s"
  have p: "p < length (writers s)"
    using assms(1) by (simp add: writer_at_def split: if_splits)
  have s1: "writer_at ?s1 p = Some (w\<lparr>body := body w @ b\<rparr>)"
    using p by (simp add: writer_at_set_writer_at)
  show ?thesis
  proof (cases "writer w")
    case NilWriter
    with assms s1 show ?thesis by (auto simp: Write.simps Let_def)
  next
    case (SinkRef a)
    with assms s1 show ?thesis by (auto simp: Write.simps Let_def split: prod.splits)
  next
    case (WriterRef q)
    with assms have y: "Write q b ?s1 = Some y" by (simp add: Write.simps Let_def)
    have l1: "link ?s1 = link s" using assms(1) by (rule link_set_body)
    from Write_returns_stack [OF y] l1 obtain n e where q: "stack (link s) q n e" by auto
    have "stack (link s) p (Suc n) e"
      using writer_at_link [OF assms(1)] WriterRef q by (auto intro: stack.intros)
    from Write_above [OF q l1 y this] s1 show ?thesis by simp
  qed
qed

text \<open>On a stack that ends in a foreign sink, \<open>Write\<close> returns what that sink returns;
  on every finite stack it comes back.\<close>

lemma Write_through:
  assumes "stack L p n e" and "e = SinkRef a" and "link s = L"
  shows "\<exists>s'. Write p b s = Some (Inr (fst (sink_Write (sinks s a) b), s')) \<and>
           sinks s' = (sinks s)(a := snd (sink_Write (sinks s a) b))"
  using assms
proof (induction arbitrary: s rule: stack.induct)
  case (stack_on_sink L p a')
  then obtain w where w: "writer_at s p = Some w" "writer w = SinkRef a"
    using link_Some by blast
  then show ?case by (auto simp: Write.simps Let_def split: prod.splits)
next
  case (stack_on_writer L p q n e)
  from stack_on_writer.hyps(1) stack_on_writer.prems
  obtain w where w: "writer_at s p = Some w" "writer w = WriterRef q"
    using link_Some by blast
  let ?s1 = "set_writer_at p (w\<lparr>body := body w @ b\<rparr>) s"
  have l1: "link ?s1 = L"
    using link_set_body [OF w(1)] stack_on_writer.prems(2) by simp
  from stack_on_writer.IH [OF stack_on_writer.prems(1) l1] w show ?case
    by (simp add: Write.simps Let_def)
qed simp_all



text \<open>The same for a sequence of calls.\<close>

lemma Writes_self:
  assumes "writer_at s p = Some w" and "Writes p bs s = Some s'"
  shows "writer_at s' p = Some (w\<lparr>body := body w @ concat bs\<rparr>)"
  using assms
proof (induction bs arbitrary: s w)
  case Nil
  then show ?case by simp
next
  case (Cons b bs)
  from Cons.prems(2) obtain y where
    y: "Write p b s = Some y" and rest: "Writes p bs (after y) = Some s'"
    by (auto split: option.splits)
  from Cons.IH [OF Write_self [OF Cons.prems(1) y] rest] show ?case by simp
qed

lemma Writes_frame:
  assumes "Writes p bs s = Some s'"
  shows "wall_clock s' = wall_clock s \<and> responses s' = responses s \<and>
     access_log s' = access_log s \<and> formatter_calls s' = formatter_calls s \<and>
     length (writers s') = length (writers s) \<and> link s' = link s"
  using assms
proof (induction bs arbitrary: s)
  case Nil
  then show ?case by simp
next
  case (Cons b bs)
  from Cons.prems obtain y where
    y: "Write p b s = Some y" and rest: "Writes p bs (after y) = Some s'"
    by (auto split: option.splits)
  from Cons.IH [OF rest] Write_frame [OF y] show ?case by simp
qed

lemma Write_returns:
  assumes "stack L p n e" and "link s = L"
  shows "\<exists>y. Write p b s = Some y"
  using assms
proof (induction arbitrary: s rule: stack.induct)
  case (stack_nil L p)
  then have "writer_at s p = None" by (simp add: link_None [symmetric])
  then show ?case by (simp add: Write.simps)
next
  case (stack_on_nil L p)
  then obtain w where "writer_at s p = Some w" "writer w = NilWriter"
    using link_Some by blast
  then show ?case by (simp add: Write.simps Let_def)
next
  case (stack_on_sink L p a)
  then obtain w where "writer_at s p = Some w" "writer w = SinkRef a"
    using link_Some by blast
  then show ?case by (simp add: Write.simps Let_def split: prod.splits)
next
  case (stack_on_writer L p q n e)
  from stack_on_writer.hyps(1) stack_on_writer.prems
  obtain w where w: "writer_at s p = Some w" "writer w = WriterRef q"
    using link_Some by blast
  have "link (set_writer_at p (w\<lparr>body := body w @ b\<rparr>) s) = L"
    using link_set_body [OF w(1)] stack_on_writer.prems by simp
  from stack_on_writer.IH [OF this] w show ?case
    by (simp add: Write.simps Let_def)
qed

lemma Writes_returns:
  assumes "stack (link s) p n e"
  shows "\<exists>s'. Writes p bs s = Some s'"
  using assms
proof (induction bs arbitrary: s)
  case Nil
  show ?case by simp
next
  case (Cons b bs)
  from Write_returns [OF Cons.prems refl] obtain y where y: "Write p b s = Some y" by blast
  from Write_frame [OF y] Cons.prems have "stack (link (after y)) p n e" by simp
  from Cons.IH [OF this] y show ?case by simp
qed

text \<open>\<open>Close\<close>, case by case.\<close>

lemma Close_None: "writer_at s p = None \<Longrightarrow> Close p s = Some (Inl (NilDereference, s))"
  by (simp add: Close.simps)

lemma Close_NilWriter:
  "writer_at s p = Some w \<Longrightarrow> writer w = NilWriter \<Longrightarrow>
   Close p s = Some (Inr (None, log_entry w s))"
  by (simp add: Close.simps Let_def)

lemma Close_SinkRef:
  "writer_at s p = Some w \<Longrightarrow> writer w = SinkRef a \<Longrightarrow>
   Close p s =
     (case sink_Close (sinks s a) of
        None \<Rightarrow> Some (Inr (None, log_entry w s))
      | Some (err, k) \<Rightarrow> Some (Inr (err, set_sink a k (log_entry w s))))"
  by (simp add: Close.simps Let_def)

lemma Close_WriterRef:
  "writer_at s p = Some w \<Longrightarrow> writer w = WriterRef q \<Longrightarrow>
   Close p s = Close q (log_entry w s)"
  by (subst Close.simps) (simp add: Let_def)

text \<open>\<open>Close\<close> only adds to the log, as many lines as formatter calls; the first entry
  is that of the Writer it was called on.\<close>

lemma Close_appends:
  assumes "Close p s = Some y"
  shows "\<exists>ls cs. access_log (after y) = access_log s @ ls \<and>
           formatter_calls (after y) = formatter_calls s @ cs \<and> length ls = length cs"
  using assms
proof (induction rule: Close_induct)
  case (step Close p s y)
  show ?case
  proof (cases "writer_at s p")
    case None
    with step(2) show ?thesis by auto
  next
    case (Some w)
    let ?line = "formatter w (now w) (response w) (request w) (body w)"
    let ?call = "(now w, response w, request w, body w)"
    show ?thesis
    proof (cases "writer w")
      case NilWriter
      with step(2) Some have "y = Inr (None, log_entry w s)" by (auto simp: Let_def)
      then have "access_log (after y) = access_log s @ [?line] \<and>
          formatter_calls (after y) = formatter_calls s @ [?call] \<and> length [?line] = length [?call]"
        by simp
      then show ?thesis by blast
    next
      case (SinkRef a)
      with step(2) Some have "after y = log_entry w s \<or> (\<exists>k. after y = set_sink a k (log_entry w s))"
        by (auto simp: Let_def split: option.splits)
      then have "access_log (after y) = access_log s @ [?line] \<and>
          formatter_calls (after y) = formatter_calls s @ [?call] \<and> length [?line] = length [?call]"
        by auto
      then show ?thesis by blast
    next
      case (WriterRef q)
      with step(2) Some have "Close q (log_entry w s) = Some y" by (simp add: Let_def)
      from step(1) [OF this] obtain ls cs where
        "access_log (after y) = access_log s @ (?line # ls)"
        "formatter_calls (after y) = formatter_calls s @ (?call # cs)"
        "length (?line # ls) = length (?call # cs)"
        by auto
      then show ?thesis by blast
    qed
  qed
qed

lemma Close_self:
  assumes "writer_at s p = Some w" and "Close p s = Some y"
  shows "\<exists>ls cs.
      access_log (after y) =
        access_log s @ formatter w (now w) (response w) (request w) (body w) # ls \<and>
      formatter_calls (after y) =
        formatter_calls s @ (now w, response w, request w, body w) # cs \<and>
      length ls = length cs \<and>
      ((\<forall>q. writer w \<noteq> WriterRef q) \<longrightarrow> ls = [] \<and> cs = [])"
proof (cases "writer w")
  case NilWriter
  with assms have "y = Inr (None, log_entry w s)" by (auto simp: Close.simps Let_def)
  then show ?thesis by simp
next
  case (SinkRef a)
  with assms have "after y = log_entry w s \<or> (\<exists>k. after y = set_sink a k (log_entry w s))"
    by (auto simp: Close.simps Let_def split: option.splits)
  then show ?thesis by auto
next
  case (WriterRef q)
  with assms have "Close q (log_entry w s) = Some y" by (simp add: Close.simps Let_def)
  from Close_appends [OF this] WriterRef show ?thesis by auto
qed

text \<open>On a stack of \<open>n\<close> Writers \<open>Close\<close> comes back, with \<open>n\<close> new entries in the
  log, and it returns unless the stack ends in a nil \<open>*Writer\<close>.\<close>

lemma Close_stack:
  assumes "stack L p n e" and "link s = L"
  shows "\<exists>y ls cs. Close p s = Some y \<and> access_log (after y) = access_log s @ ls \<and>
     formatter_calls (after y) = formatter_calls s @ cs \<and> length ls = n \<and> length cs = n \<and>
     ((\<forall>x. e \<noteq> WriterRef x) \<longrightarrow> (\<exists>err s'. y = Inr (err, s')))"
  using assms
proof (induction arbitrary: s rule: stack.induct)
  case (stack_nil L p)
  then have "writer_at s p = None" by (simp add: link_None [symmetric])
  from Close_None [OF this] show ?case
    by (intro exI [of _ "Inl (NilDereference, s)"] exI [of _ "[]"]) simp
next
  case (stack_on_nil L p)
  then obtain w where w: "writer_at s p = Some w" "writer w = NilWriter"
    using link_Some by blast
  from Close_NilWriter [OF w] show ?case
    by (intro exI [of _ "Inr (None, log_entry w s)"]
        exI [of _ "[formatter w (now w) (response w) (request w) (body w)]"]
        exI [of _ "[(now w, response w, request w, body w)]"]) simp
next
  case (stack_on_sink L p a)
  then obtain w where w: "writer_at s p = Some w" "writer w = SinkRef a"
    using link_Some by blast
  have "\<exists>y. Close p s = Some y \<and> (after y = log_entry w s \<or>
      (\<exists>k. after y = set_sink a k (log_entry w s))) \<and> (\<exists>err s'. y = Inr (err, s'))"
  proof (cases "sink_Close (sinks s a)")
    case None
    with Close_SinkRef [OF w] show ?thesis by simp
  next
    case (Some v)
    then obtain err k where "sink_Close (sinks s a) = Some (err, k)" by (cases v) auto
    with Close_SinkRef [OF w] have "Close p s = Some (Inr (err, set_sink a k (log_entry w s)))"
      by simp
    then show ?thesis by auto
  qed
  then obtain y where y: "Close p s = Some y" "after y = log_entry w s \<or>
      (\<exists>k. after y = set_sink a k (log_entry w s))" "\<exists>err s'. y = Inr (err, s')"
    by blast
  from y(2) have "access_log (after y) =
        access_log s @ [formatter w (now w) (response w) (request w) (body w)]"
     "formatter_calls (after y) = formatter_calls s @ [(now w, response w, request w, body w)]"
    by auto
  with y(1,3) show ?case
    by (intro exI [of _ y]
        exI [of _ "[formatter w (now w) (response w) (request w) (body w)]"]
        exI [of _ "[(now w, response w, request w, body w)]"]) simp
next
  case (stack_on_writer L p q n e)
  from stack_on_writer.hyps(1) stack_on_writer.prems
  obtain w where w: "writer_at s p = Some w" "writer w = WriterRef q"
    using link_Some by blast
  have l1: "link (log_entry w s) = L" using stack_on_writer.prems by simp
  from stack_on_writer.IH [OF l1] obtain y ls cs where
    y: "Close q (log_entry w s) = Some y"
    and ls: "access_log (after y) = access_log (log_entry w s) @ ls" "length ls = n"
    and cs: "formatter_calls (after y) = formatter_calls (log_entry w s) @ cs" "length cs = n"
    and nr: "(\<forall>x. e \<noteq> WriterRef x) \<longrightarrow> (\<exists>err s'. y = Inr (err, s'))"
    by blast
  have "Close p s = Some y" using Close_WriterRef [OF w] y by simp
  with ls cs nr show ?case
    by (intro exI [of _ y]
        exI [of _ "formatter w (now w) (response w) (request w) (body w) # ls"]
        exI [of _ "(now w, response w, request w, body w) # cs"]) simp
qed

text \<open>Both together: what a \<open>Close\<close> that has come back has added to the log, and that
  it comes back on a finite stack.\<close>

lemma Close_self_count:
  assumes "writer_at s p = Some w" and "Close p s = Some y"
  shows "\<exists>ls cs.
      access_log (after y) =
        access_log s @ formatter w (now w) (response w) (request w) (body w) # ls \<and>
      formatter_calls (after y) =
        formatter_calls s @ (now w, response w, request w, body w) # cs \<and>
      length ls = length cs \<and>
      ((\<forall>q. writer w \<noteq> WriterRef q) \<longrightarrow> ls = [] \<and> cs = []) \<and>
      (\<forall>n e. stack (link s) p n e \<longrightarrow> length ls = n - 1 \<and> length cs = n - 1)"
proof -
  from Close_self [OF assms] obtain ls cs where
    l: "access_log (after y) =
        access_log s @ formatter w (now w) (response w) (request w) (body w) # ls"
    and k: "formatter_calls (after y) =
        formatter_calls s @ (now w, response w, request w, body w) # cs"
    and e: "length ls = length cs"
    and g: "(\<forall>q. writer w \<noteq> WriterRef q) \<longrightarrow> ls = [] \<and> cs = []"
    by blast
  have "length ls = n - 1 \<and> length cs = n - 1" if st: "stack (link s) p n e" for n e
  proof -
    from Close_stack [OF st refl] assms(2) obtain ls0 cs0 where
      "access_log (after y) = access_log s @ ls0" "length ls0 = n"
      "formatter_calls (after y) = formatter_calls s @ cs0" "length cs0 = n"
      by auto
    with l k show ?thesis by auto
  qed
  with l k e g show ?thesis by blast
qed

lemma Close_returns:
  assumes "stack (link s) p n e"
  shows "\<exists>y. Close p s = Some y \<and> ((\<forall>x. e \<noteq> WriterRef x) \<longrightarrow> (\<exists>err s'. y = Inr (err, s')))"
  using Close_stack [OF assms refl] by blast

subsection \<open>The example world, evaluated\<close>

lemmas demo_defs = plain_sink_def closing_sink_def broken_sink_def demo_formatter_def
  demo_writer_def demo_sinks_def demo_world_def demo_started_def demo_written_once_def
  demo_written_def demo_closed_def demo_stacked_def demo_handler_def demo_installed_def
  demo_first_def demo_second_def demo_twice_started_def demo_twice_written_def
  demo_twice_closed_def demo_twice_closed_unwritten_def

lemmas world_defs = writer_at_def set_writer_at_def set_sink_def sink_Write_def sink_Close_def
  log_entry_def AccessLogger_Println_def NewWriter_def Response_Writer_def
  Response_SetWriter_def time_Now_def

lemma demo_new: "NewWriter 7 8 demo_formatter demo_world = Inr (0, demo_started)"
  by (simp add: demo_defs world_defs)

lemma demo_stack: "stack (link demo_started) 0 1 (SinkRef 3)"
proof -
  have "link demo_started 0 = Some (SinkRef 3)"
    by (simp add: link_def demo_defs world_defs)
  then show ?thesis by (rule stack_on_sink)
qed

lemma demo_write: "Write 0 [1, 2] demo_started = Some (Inr ((2, None), demo_written_once))"
  by (simp add: demo_defs world_defs Write.simps)

lemma demo_writes: "Writes 0 [[1, 2], [3]] demo_started = Some demo_written"
  by (simp add: demo_defs world_defs Write.simps)

lemma demo_close:
  "Close 0 (demo_written\<lparr>wall_clock := 2000\<rparr>) =
     Some (Inr (Some (Error ''close failed''), demo_closed))"
  by (simp add: demo_defs world_defs Close.simps)

lemma demo_stack_later: "stack (link (demo_written\<lparr>wall_clock := 2000\<rparr>)) 0 1 (SinkRef 3)"
proof -
  have "link (demo_written\<lparr>wall_clock := 2000\<rparr>) 0 = Some (SinkRef 3)"
    by (simp add: link_def demo_defs world_defs)
  then show ?thesis by (rule stack_on_sink)
qed

lemma demo_twice_new:
  "NewWriter 7 8 demo_formatter demo_installed = Inr (1, demo_twice_started)"
  by (simp add: demo_defs world_defs)

section \<open>The claims\<close>

text \<open>
  Claim C1. The body of a Writer is the concatenation, in order, of the slices written
  to it. Let \<open>w\<close> be the Writer at \<open>p\<close>. After calls of \<open>Write\<close> with the slices \<open>bs\<close>
  its body is \<open>body w @ concat bs\<close>; each single call with \<open>b\<close> extends the body by
  \<open>b\<close>, whatever the call returns, also when the write to the sink fails or the wrapped
  writer is nil and the call panics. The calls do return when the stack of Writers
  under \<open>p\<close> is finite. The body of a Writer that \<open>NewWriter\<close> has just made is empty,
  so that after the calls its body is \<open>concat bs\<close>.
\<close>

theorem Write_body_is_concatenation:
  assumes "writer_at s p = Some w"
  shows "(\<forall>s'. Writes p bs s = Some s' \<longrightarrow>
            map_option body (writer_at s' p) = Some (body w @ concat bs)) \<and>
         (\<forall>y. Write p b s = Some y \<longrightarrow>
            map_option body (writer_at (after y) p) = Some (body w @ b)) \<and>
         (\<forall>n e. stack (link s) p n e \<longrightarrow> (\<exists>s'. Writes p bs s = Some s')) \<and>
         (\<forall>r q f s0. NewWriter r q f s0 = Inr (p, s) \<longrightarrow> body w = [])"
proof -
  have 1: "map_option body (writer_at s' p) = Some (body w @ concat bs)"
    if "Writes p bs s = Some s'" for s'
    using Writes_self [OF assms that] by simp
  have 2: "map_option body (writer_at (after y) p) = Some (body w @ b)"
    if "Write p b s = Some y" for y
    using Write_self [OF assms that] by simp
  have 3: "\<exists>s'. Writes p bs s = Some s'" if "stack (link s) p n e" for n e
    using Writes_returns [OF that] .
  have 4: "body w = []" if "NewWriter r q f s0 = Inr (p, s)" for r q f s0
    using NewWriter_writer_at [OF that] assms by auto
  from 1 2 3 4 show ?thesis by blast
qed

theorem Write_body_is_concatenation_witness:
  "writer_at demo_started 0 = Some (demo_writer (SinkRef 3)) \<and>
   NewWriter 7 8 demo_formatter demo_world = Inr (0, demo_started) \<and>
   body (demo_writer (SinkRef 3)) = [] \<and>
   stack (link demo_started) 0 1 (SinkRef 3) \<and>
   Writes 0 [[1, 2], [3]] demo_started = Some demo_written \<and>
   map_option body (writer_at demo_written 0) = Some [1, 2, 3] \<and>
   Write 0 [1, 2] demo_started = Some (Inr ((2, None), demo_written_once)) \<and>
   map_option body (writer_at demo_written_once 0) = Some [1, 2]"
proof -
  have h1: "writer_at demo_started 0 = Some (demo_writer (SinkRef 3))"
    by (simp add: demo_defs world_defs)
  note t = Write_body_is_concatenation [OF h1, of "[[1, 2], [3]]" "[1, 2]"]
  from t demo_new have a: "body (demo_writer (SinkRef 3)) = []" by blast
  from t demo_writes
  have b: "map_option body (writer_at demo_written 0) =
      Some (body (demo_writer (SinkRef 3)) @ concat [[1, 2], [3]])" by blast
  from t demo_write
  have c: "map_option body
        (writer_at (after (Inr ((2::int, None::error option), demo_written_once))) 0) =
      Some (body (demo_writer (SinkRef 3)) @ [1, 2])" by blast
  from a b c h1 demo_new demo_stack demo_writes demo_write show ?thesis by simp
qed

text \<open>
  Claim C2. \<open>Write\<close> passes the slice on unchanged and returns what the wrapped writer
  returns. Let the Writer at \<open>p\<close> wrap the foreign sink \<open>a\<close>, directly (\<open>n = 1\<close>) or
  through further Writers of this package, and let \<open>(m, err)\<close> be what the \<open>Write\<close> of
  that sink returns for \<open>b\<close> in its present state. Then \<open>Write p b\<close> returns, with
  exactly \<open>(m, err)\<close>, be \<open>err\<close> nil or an error, and the sink has received the one
  call \<open>WriteCall b\<close>; no other sink has received anything. And when the Writer at
  \<open>p\<close> wraps a Writer \<open>x\<close> of this package, the outcome of \<open>Write p b\<close> is in every
  case that of \<open>Write x b\<close>.
\<close>

theorem Write_passes_through:
  assumes "writer_at s p = Some w"
  shows "(stack (link s) p n (SinkRef a) \<and>
          on_write (sinks s a) (history (sinks s a)) b = (m, err) \<longrightarrow>
            (\<exists>s'. Write p b s = Some (Inr ((m, err), s')) \<and>
               sinks s' = (sinks s)
                 (a := (sinks s a)\<lparr>history := history (sinks s a) @ [WriteCall b]\<rparr>))) \<and>
         (writer w = WriterRef x \<longrightarrow>
            Write p b s = Write x b (set_writer_at p (w\<lparr>body := body w @ b\<rparr>) s))"
proof -
  have "\<exists>s'. Write p b s = Some (Inr ((m, err), s')) \<and>
      sinks s' = (sinks s)(a := (sinks s a)\<lparr>history := history (sinks s a) @ [WriteCall b]\<rparr>)"
    if "stack (link s) p n (SinkRef a)"
      and "on_write (sinks s a) (history (sinks s a)) b = (m, err)"
    using Write_through [OF that(1) refl refl, of b] that(2)
    by (simp add: sink_Write_def)
  moreover have "Write p b s = Write x b (set_writer_at p (w\<lparr>body := body w @ b\<rparr>) s)"
    if "writer w = WriterRef x"
    using Write_WriterRef [OF assms that] .
  ultimately show ?thesis by blast
qed

theorem Write_passes_through_witness:
  "writer_at demo_stacked 1 = Some (demo_writer (WriterRef 0)) \<and>
   writer (demo_writer (WriterRef 0)) = WriterRef 0 \<and>
   stack (link demo_stacked) 1 (Suc 1) (SinkRef 4) \<and>
   on_write (sinks demo_stacked 4) (history (sinks demo_stacked 4)) [5, 6] =
     (1, Some (Error ''broken pipe'')) \<and>
   (\<exists>s'. Write 1 [5, 6] demo_stacked = Some (Inr ((1, Some (Error ''broken pipe'')), s')) \<and>
      sinks s' = (sinks demo_stacked)
        (4 := (sinks demo_stacked 4)
           \<lparr>history := history (sinks demo_stacked 4) @ [WriteCall [5, 6]]\<rparr>)) \<and>
   Write 1 [5, 6] demo_stacked =
     Write 0 [5, 6]
       (set_writer_at 1 ((demo_writer (WriterRef 0))\<lparr>body := body (demo_writer (WriterRef 0)) @ [5, 6]\<rparr>)
          demo_stacked)"
proof -
  have l1: "link demo_stacked 1 = Some (WriterRef 0)"
    and l0: "link demo_stacked 0 = Some (SinkRef 4)"
    by (simp_all add: link_def demo_defs world_defs)
  have h0: "writer_at demo_stacked 1 = Some (demo_writer (WriterRef 0))"
    by (simp add: demo_defs world_defs)
  have h1: "stack (link demo_stacked) 1 (Suc 1) (SinkRef 4)"
    using stack_on_writer [of "link demo_stacked" 1 0 1 "SinkRef 4", OF l1]
      stack_on_sink [of "link demo_stacked" 0 4, OF l0] by simp
  have h2: "on_write (sinks demo_stacked 4) (history (sinks demo_stacked 4)) [5, 6] =
     (1, Some (Error ''broken pipe''))"
    by (simp add: demo_defs)
  have h3: "writer (demo_writer (WriterRef 0)) = WriterRef 0"
    by (simp add: demo_defs)
  from Write_passes_through [OF h0, of "Suc 1" 4 "[5, 6]" 1 "Some (Error ''broken pipe'')" 0]
    h0 h1 h2 h3
  show ?thesis by blast
qed

text \<open>
  Claim C3, as the code has it. One life of a Writer: \<open>NewWriter\<close>, then calls of
  \<open>Write\<close> with the slices \<open>bs\<close>, then one \<open>Close\<close>. Between these the world may
  change in any way that leaves the Writer as it is (\<open>sa\<close>, \<open>sb\<close>). Neither
  \<open>NewWriter\<close> nor any \<open>Write\<close> calls a formatter or prints a line. A \<open>Close\<close> that
  comes back has called the formatter with the time of construction, the response, the
  request and the whole body \<open>concat bs\<close>, and has printed the line it returns; this is
  the first thing it does. What follows in the log (\<open>ls\<close>, \<open>cs\<close>) comes from closing
  the writer it wraps: nothing when the response carried no Writer of this package, so
  that there is exactly one call and one line; and on a stack of \<open>m\<close> Writers the
  \<open>m - 1\<close> entries of the Writers underneath, each of which is closed in turn. The calls
  of \<open>Write\<close> and the \<open>Close\<close> do come back when the stack under the Writer is finite.
  The claim as it is worded, one formatter call and one line for every such life, does
  not hold for a Writer that wraps a Writer: see the counterexample below.
\<close>

theorem Close_logs_once:
  assumes "NewWriter r q f s0 = Inr (p, s1)"
    and "writer_at sa p = writer_at s1 p"
  shows "formatter_calls s1 = formatter_calls s0 \<and> access_log s1 = access_log s0 \<and>
         (\<forall>s2. Writes p bs sa = Some s2 \<longrightarrow>
            formatter_calls s2 = formatter_calls sa \<and> access_log s2 = access_log sa \<and>
            (\<forall>sb. writer_at sb p = writer_at s2 p \<longrightarrow>
               (\<forall>y. Close p sb = Some y \<longrightarrow>
                  (\<exists>ls cs.
                     formatter_calls (after y) =
                       formatter_calls sb @ (time_Now s0, r, q, concat bs) # cs \<and>
                     access_log (after y) =
                       access_log sb @ f (time_Now s0) r q (concat bs) # ls \<and>
                     length ls = length cs \<and>
                     ((\<forall>x. Response_Writer r s0 \<noteq> Inr (WriterRef x)) \<longrightarrow>
                        ls = [] \<and> cs = []) \<and>
                     (\<forall>m e'. stack (link sb) p m e' \<longrightarrow>
                        length ls = m - 1 \<and> length cs = m - 1))) \<and>
               (\<forall>m e'. stack (link sb) p m e' \<longrightarrow> (\<exists>y. Close p sb = Some y)))) \<and>
         (\<forall>n e. stack (link sa) p n e \<longrightarrow> (\<exists>s2. Writes p bs sa = Some s2))"
proof -
  from NewWriter_writer_at [OF assms(1)] obtain wr where
    wr: "Response_Writer r s0 = Inr wr" and
    w1: "writer_at s1 p = Some \<lparr>now = wall_clock s0, request = q, writer = wr, response = r,
          body = [], formatter = f\<rparr>"
    by blast
  from NewWriter_Inr [OF assms(1)]
  have a: "formatter_calls s1 = formatter_calls s0 \<and> access_log s1 = access_log s0" by auto
  have b: "formatter_calls s2 = formatter_calls sa \<and> access_log s2 = access_log sa"
    if "Writes p bs sa = Some s2" for s2
    using Writes_frame [OF that] by simp
  have w2: "writer_at sb p = Some \<lparr>now = wall_clock s0, request = q, writer = wr,
          response = r, body = concat bs, formatter = f\<rparr>"
    if "Writes p bs sa = Some s2" and "writer_at sb p = writer_at s2 p" for s2 sb
    using Writes_self [OF _ that(1)] w1 assms(2) that(2) by simp
  have c: "\<exists>ls cs.
      formatter_calls (after y) = formatter_calls sb @ (time_Now s0, r, q, concat bs) # cs \<and>
      access_log (after y) = access_log sb @ f (time_Now s0) r q (concat bs) # ls \<and>
      length ls = length cs \<and>
      ((\<forall>x. Response_Writer r s0 \<noteq> Inr (WriterRef x)) \<longrightarrow> ls = [] \<and> cs = []) \<and>
      (\<forall>m e'. stack (link sb) p m e' \<longrightarrow> length ls = m - 1 \<and> length cs = m - 1)"
    if "Writes p bs sa = Some s2" and "writer_at sb p = writer_at s2 p"
      and "Close p sb = Some y" for s2 sb y
    using Close_self_count [OF w2 [OF that(1,2)] that(3)] wr
    by (simp add: time_Now_def) blast
  have d: "\<exists>y. Close p sb = Some y" if "stack (link sb) p m e'" for sb m e'
    using Close_returns [OF that] by blast
  have e: "\<exists>s2. Writes p bs sa = Some s2" if "stack (link sa) p n e" for n e
    using Writes_returns [OF that] .
  show ?thesis
    apply (intro conjI allI impI)
    using a apply simp
    using a apply simp
    using b apply simp
    using b apply simp
    using c apply blast
    using d apply blast
    using e apply blast
    done
qed

theorem Close_logs_once_witness:
  "NewWriter 7 8 demo_formatter demo_world = Inr (0, demo_started) \<and>
   writer_at demo_started 0 = writer_at demo_started 0 \<and>
   stack (link demo_started) 0 1 (SinkRef 3) \<and>
   Writes 0 [[1, 2], [3]] demo_started = Some demo_written \<and>
   writer_at (demo_written\<lparr>wall_clock := 2000\<rparr>) 0 = writer_at demo_written 0 \<and>
   stack (link (demo_written\<lparr>wall_clock := 2000\<rparr>)) 0 1 (SinkRef 3) \<and>
   Close 0 (demo_written\<lparr>wall_clock := 2000\<rparr>) =
     Some (Inr (Some (Error ''close failed''), demo_closed)) \<and>
   formatter_calls demo_written = formatter_calls demo_started \<and>
   access_log demo_written = access_log demo_started \<and>
   formatter_calls demo_closed = [(1000, 7, 8, [1, 2, 3])] \<and>
   access_log demo_closed = [demo_formatter 1000 7 8 [1, 2, 3]]"
proof -
  have h4: "writer_at (demo_written\<lparr>wall_clock := 2000\<rparr>) 0 = writer_at demo_written 0"
    by (simp add: writer_at_def)
  note t = Close_logs_once [OF demo_new refl, of "[[1, 2], [3]]"]
  from t demo_writes
  have a: "formatter_calls demo_written = formatter_calls demo_started \<and>
      access_log demo_written = access_log demo_started"
    by blast
  from t demo_writes h4 demo_stack_later
  have b: "\<exists>y. Close 0 (demo_written\<lparr>wall_clock := 2000\<rparr>) = Some y"
    by blast
  from t demo_stack
  have c: "\<exists>s2. Writes 0 [[1, 2], [3]] demo_started = Some s2"
    by blast
  from a b c demo_new demo_stack demo_writes h4 demo_stack_later demo_close
  show ?thesis by (simp add: demo_defs)
qed

text \<open>The counterexample to claim C3 as it is worded. Response 7 already carries a
  Writer (the middleware has been applied once) when a second Writer is made for it.
  The life of the second Writer, \<open>NewWriter\<close>, one \<open>Write\<close>, one \<open>Close\<close>, ends with
  two calls of the formatter and two lines in the log.\<close>

theorem Close_logs_once_counterexample:
  "NewWriter 7 8 demo_formatter demo_installed = Inr (1, demo_twice_started) \<and>
   Writes 1 [[1, 2]] demo_twice_started = Some demo_twice_written \<and>
   Close 1 demo_twice_written =
     Some (Inr (Some (Error ''close failed''), demo_twice_closed)) \<and>
   formatter_calls demo_twice_written = [] \<and> access_log demo_twice_written = [] \<and>
   formatter_calls demo_twice_closed = [(1000, 7, 8, [1, 2]), (1000, 7, 8, [1, 2])] \<and>
   access_log demo_twice_closed =
     [demo_formatter 1000 7 8 [1, 2], demo_formatter 1000 7 8 [1, 2]] \<and>
   length (access_log demo_twice_closed) = 2"
  by (simp add: demo_defs world_defs Write.simps Close.simps)

text \<open>
  Claim C4. When the wrapped writer has no \<open>Close\<close> method (it is a foreign sink whose
  type is not an \<open>io.Closer\<close>, or the nil interface), \<open>Close\<close> returns nil, having
  printed its line; no sink is touched.
\<close>

theorem Close_without_closer_returns_nil:
  assumes "writer_at s p = Some w"
    and "writer w = NilWriter \<or> (\<exists>a. writer w = SinkRef a \<and> on_close (sinks s a) = None)"
  shows "Close p s = Some (Inr (None, log_entry w s))"
  using assms Close_NilWriter [of s p w] Close_SinkRef [of s p w]
  by (auto simp: sink_Close_def)

theorem Close_without_closer_returns_nil_witness:
  "writer_at (demo_world\<lparr>writers := [demo_writer (SinkRef 5)]\<rparr>) 0 = Some (demo_writer (SinkRef 5)) \<and>
   (writer (demo_writer (SinkRef 5)) = NilWriter \<or>
    (\<exists>a. writer (demo_writer (SinkRef 5)) = SinkRef a \<and>
       on_close (sinks (demo_world\<lparr>writers := [demo_writer (SinkRef 5)]\<rparr>) a) = None)) \<and>
   Close 0 (demo_world\<lparr>writers := [demo_writer (SinkRef 5)]\<rparr>) =
     Some (Inr (None, log_entry (demo_writer (SinkRef 5))
       (demo_world\<lparr>writers := [demo_writer (SinkRef 5)]\<rparr>)))"
proof -
  let ?s = "demo_world\<lparr>writers := [demo_writer (SinkRef 5)]\<rparr>"
  have h1: "writer_at ?s 0 = Some (demo_writer (SinkRef 5))"
    by (simp add: writer_at_def)
  have h2: "writer (demo_writer (SinkRef 5)) = NilWriter \<or>
    (\<exists>a. writer (demo_writer (SinkRef 5)) = SinkRef a \<and> on_close (sinks ?s a) = None)"
    by (simp add: demo_defs)
  from Close_without_closer_returns_nil [OF h1 h2] h1 h2 show ?thesis by simp
qed

text \<open>
  Claim C5. When the wrapped writer is an \<open>io.Closer\<close>, \<open>Close\<close> calls its \<open>Close\<close>
  once and returns what that call returns. For a foreign sink \<open>a\<close> with the method
  \<open>c\<close>: the value returned is \<open>c\<close> applied to the state of the sink, nil or error
  alike, and the sink has received exactly one \<open>CloseCall\<close>. For a Writer \<open>x\<close> of this
  package, which is an \<open>io.Closer\<close>: the outcome is that of \<open>Close x\<close>.
\<close>

theorem Close_returns_error_of_sink:
  assumes "writer_at s p = Some w"
  shows "(writer w = SinkRef a \<and> on_close (sinks s a) = Some c \<longrightarrow>
            Close p s = Some (Inr (c (history (sinks s a)),
              set_sink a ((sinks s a)\<lparr>history := history (sinks s a) @ [CloseCall]\<rparr>)
                (log_entry w s)))) \<and>
         (writer w = WriterRef x \<longrightarrow> Close p s = Close x (log_entry w s))"
  using Close_SinkRef [OF assms, of a] Close_WriterRef [OF assms, of x]
  by (simp add: sink_Close_def)

theorem Close_returns_error_of_sink_witness:
  "writer_at demo_started 0 = Some (demo_writer (SinkRef 3)) \<and>
   writer (demo_writer (SinkRef 3)) = SinkRef 3 \<and>
   on_close (sinks demo_started 3) = Some (\<lambda>h. Some (Error ''close failed'')) \<and>
   Close 0 demo_started =
     Some (Inr (Some (Error ''close failed''),
       set_sink 3 ((sinks demo_started 3)\<lparr>history := history (sinks demo_started 3) @ [CloseCall]\<rparr>)
         (log_entry (demo_writer (SinkRef 3)) demo_started))) \<and>
   writer_at demo_stacked 1 = Some (demo_writer (WriterRef 0)) \<and>
   writer (demo_writer (WriterRef 0)) = WriterRef 0 \<and>
   Close 1 demo_stacked = Close 0 (log_entry (demo_writer (WriterRef 0)) demo_stacked)"
proof -
  have h1: "writer_at demo_started 0 = Some (demo_writer (SinkRef 3))"
    by (simp add: demo_defs world_defs)
  have h2: "writer (demo_writer (SinkRef 3)) = SinkRef 3"
    by (simp add: demo_defs)
  have h3: "on_close (sinks demo_started 3) = Some (\<lambda>h. Some (Error ''close failed''))"
    by (simp add: demo_defs)
  have g1: "writer_at demo_stacked 1 = Some (demo_writer (WriterRef 0))"
    by (simp add: demo_defs world_defs)
  have g2: "writer (demo_writer (WriterRef 0)) = WriterRef 0"
    by (simp add: demo_defs)
  from Close_returns_error_of_sink [OF h1, of 3 "\<lambda>h. Some (Error ''close failed'')" 0]
    Close_returns_error_of_sink [OF g1, of 0 "\<lambda>h. None" 0] h1 h2 h3 g1 g2
  show ?thesis by simp
qed

text \<open>
  Claim C6. The handler that \<open>Middleware f next\<close> returns, called on a response \<open>r\<close>
  and a request \<open>q\<close>, runs \<open>next\<close> in the world in which a new Writer has been
  allocated (time of construction the present reading of the clock, wrapping the writer
  the response had, empty body, formatter \<open>f\<close>) and installed as the writer of the
  response. The address of the new Writer held no Writer before, and the Writers that
  existed are unchanged: what a request gets depends on \<open>f\<close>, on the request and on the
  present world only, so that a second request gets a Writer of its own, with its own
  time.
\<close>

theorem Middleware_installs_new_Writer:
  assumes "responses s r = Some resp"
  shows "Middleware f next r q s =
           next r q (s\<lparr>writers := writers s @
                        [\<lparr>now = time_Now s, request = q, writer = active_writer resp,
                          response = r, body = [], formatter = f\<rparr>],
                      responses := (responses s)
                        (r \<mapsto> resp\<lparr>active_writer := WriterRef (length (writers s))\<rparr>)\<rparr>) \<and>
         writer_at s (length (writers s)) = None"
  using assms
  by (simp add: Middleware_def NewWriter_def Response_Writer_def Response_SetWriter_def
      writer_at_def)

theorem Middleware_installs_new_Writer_witness:
  "responses demo_world 7 = Some \<lparr>active_writer = SinkRef 3\<rparr> \<and>
   Middleware demo_formatter (demo_handler [[1, 2]]) 7 8 demo_world =
     demo_handler [[1, 2]] 7 8 demo_installed \<and>
   Middleware demo_formatter (demo_handler [[1, 2]]) 7 8 demo_world =
     Some (Inr ((), demo_first)) \<and>
   responses (demo_first\<lparr>wall_clock := 2000\<rparr>) 9 = Some \<lparr>active_writer = SinkRef 5\<rparr> \<and>
   Middleware demo_formatter (demo_handler [[3]]) 9 10 (demo_first\<lparr>wall_clock := 2000\<rparr>) =
     Some (Inr ((), demo_second)) \<and>
   access_log demo_second = [demo_formatter 1000 7 8 [1, 2], demo_formatter 2000 9 10 [3]]"
proof -
  have h1: "responses demo_world 7 = Some \<lparr>active_writer = SinkRef 3\<rparr>"
    by (simp add: demo_defs)
  have h2: "responses (demo_first\<lparr>wall_clock := 2000\<rparr>) 9 = Some \<lparr>active_writer = SinkRef 5\<rparr>"
    by (simp add: demo_defs)
  note m1 = Middleware_installs_new_Writer [OF h1, of demo_formatter "demo_handler [[1, 2]]" 8]
  note m2 = Middleware_installs_new_Writer [OF h2, of demo_formatter "demo_handler [[3]]" 10]
  have a: "Middleware demo_formatter (demo_handler [[1, 2]]) 7 8 demo_world =
     demo_handler [[1, 2]] 7 8 demo_installed"
    using m1 by (simp add: demo_defs time_Now_def)
  have b: "demo_handler [[1, 2]] 7 8 demo_installed = Some (Inr ((), demo_first))"
    by (simp add: demo_defs world_defs Write.simps Close.simps)
  have c: "Middleware demo_formatter (demo_handler [[3]]) 9 10 (demo_first\<lparr>wall_clock := 2000\<rparr>) =
     Some (Inr ((), demo_second))"
    using m2 by (simp add: demo_defs world_defs Write.simps Close.simps)
  have d: "access_log demo_second =
     [demo_formatter 1000 7 8 [1, 2], demo_formatter 2000 9 10 [3]]"
    by (simp add: demo_defs)
  from h1 h2 a b c d show ?thesis by simp
qed



text \<open>
  Claim C8. \<open>CommonLogMiddleware()\<close> is \<open>Middleware(CommonLogFormatter)\<close> and
  \<open>CombinedLogMiddleware()\<close> is \<open>Middleware(CombinedLogFormatter)\<close>: the same function
  of the next handler, the response, the request and the world.
\<close>

theorem preset_middlewares:
  "CommonLogMiddleware fs = Middleware (CommonLogFormatter fs) \<and>
   CombinedLogMiddleware fs = Middleware (CombinedLogFormatter fs)"
  by (simp add: CommonLogMiddleware_def CombinedLogMiddleware_def)

text \<open>
  Claim C9, as the code has it. \<open>Close\<close> on a Writer that \<open>NewWriter\<close> has made and
  to which nothing has been written; in between the world may change in any way that
  leaves the Writer as it is (\<open>sa\<close>). A \<open>Close\<close> that comes back has called the
  formatter with the empty body and printed that line first. Nothing follows when the
  response carried no Writer of this package: then there is exactly one line. On a stack
  of \<open>n\<close> Writers the \<open>n - 1\<close> entries of the Writers underneath follow. \<open>Close\<close> does
  come back when the stack is finite, and it returns (it does not panic) when the stack
  does not end in a nil \<open>*Writer\<close>. The claim as it is worded, one line in every case,
  does not hold for a Writer that wraps a Writer: see the counterexample below.
\<close>

theorem Close_without_Write:
  assumes "NewWriter r q f s0 = Inr (p, s1)"
    and "writer_at sa p = writer_at s1 p"
  shows "map_option body (writer_at sa p) = Some [] \<and>
         (\<forall>y. Close p sa = Some y \<longrightarrow>
            (\<exists>ls cs.
               formatter_calls (after y) = formatter_calls sa @ (time_Now s0, r, q, []) # cs \<and>
               access_log (after y) = access_log sa @ f (time_Now s0) r q [] # ls \<and>
               length ls = length cs \<and>
               ((\<forall>x. Response_Writer r s0 \<noteq> Inr (WriterRef x)) \<longrightarrow> ls = [] \<and> cs = []) \<and>
               (\<forall>n e. stack (link sa) p n e \<longrightarrow>
                  length ls = n - 1 \<and> length cs = n - 1))) \<and>
         (\<forall>n e. stack (link sa) p n e \<longrightarrow>
            (\<exists>y. Close p sa = Some y \<and>
               ((\<forall>x. e \<noteq> WriterRef x) \<longrightarrow> (\<exists>err s'. y = Inr (err, s')))))"
proof -
  from NewWriter_writer_at [OF assms(1)] assms(2) obtain wr where
    wr: "Response_Writer r s0 = Inr wr" and
    w: "writer_at sa p = Some \<lparr>now = wall_clock s0, request = q, writer = wr, response = r,
          body = [], formatter = f\<rparr>"
    by auto
  have a: "map_option body (writer_at sa p) = Some []"
    using w by simp
  have c: "\<exists>ls cs.
      formatter_calls (after y) = formatter_calls sa @ (time_Now s0, r, q, []) # cs \<and>
      access_log (after y) = access_log sa @ f (time_Now s0) r q [] # ls \<and>
      length ls = length cs \<and>
      ((\<forall>x. Response_Writer r s0 \<noteq> Inr (WriterRef x)) \<longrightarrow> ls = [] \<and> cs = []) \<and>
      (\<forall>n e. stack (link sa) p n e \<longrightarrow> length ls = n - 1 \<and> length cs = n - 1)"
    if "Close p sa = Some y" for y
    using Close_self_count [OF w that] wr by (simp add: time_Now_def) blast
  have d: "\<exists>y. Close p sa = Some y \<and>
      ((\<forall>x. e \<noteq> WriterRef x) \<longrightarrow> (\<exists>err s'. y = Inr (err, s')))"
    if "stack (link sa) p n e" for n e
    using Close_returns [OF that] .
  show ?thesis
    apply (intro conjI allI impI)
    using a apply simp
    using c apply blast
    using d apply blast
    done
qed

theorem Close_without_Write_witness:
  "NewWriter 7 8 demo_formatter demo_world = Inr (0, demo_started) \<and>
   writer_at demo_started 0 = writer_at demo_started 0 \<and>
   stack (link demo_started) 0 1 (SinkRef 3) \<and>
   (\<forall>x. SinkRef 3 \<noteq> WriterRef x) \<and>
   (\<forall>x. Response_Writer 7 demo_world \<noteq> Inr (WriterRef x)) \<and>
   map_option body (writer_at demo_started 0) = Some [] \<and>
   (\<exists>err s'. Close 0 demo_started = Some (Inr (err, s')) \<and>
      formatter_calls s' = formatter_calls demo_started @ [(time_Now demo_world, 7, 8, [])] \<and>
      access_log s' = access_log demo_started @ [demo_formatter (time_Now demo_world) 7 8 []])"
proof -
  have h4: "\<forall>x. SinkRef 3 \<noteq> WriterRef x" by simp
  have h5: "\<forall>x. Response_Writer 7 demo_world \<noteq> Inr (WriterRef x)"
    by (simp add: demo_defs world_defs)
  note t = Close_without_Write [OF demo_new refl]
  from t have a: "map_option body (writer_at demo_started 0) = Some []" by blast
  from t demo_stack h4 obtain err s' where
    y: "Close 0 demo_started = Some (Inr (err, s'))" by blast
  from t y obtain ls cs where
    "formatter_calls (after (Inr (err, s'))) =
       formatter_calls demo_started @ (time_Now demo_world, 7, 8, []) # cs"
    "access_log (after (Inr (err, s'))) =
       access_log demo_started @ demo_formatter (time_Now demo_world) 7 8 [] # ls"
    "(\<forall>x. Response_Writer 7 demo_world \<noteq> Inr (WriterRef x)) \<longrightarrow> ls = [] \<and> cs = []"
    by blast
  with h5 y have "\<exists>err s'. Close 0 demo_started = Some (Inr (err, s')) \<and>
      formatter_calls s' = formatter_calls demo_started @ [(time_Now demo_world, 7, 8, [])] \<and>
      access_log s' = access_log demo_started @ [demo_formatter (time_Now demo_world) 7 8 []]"
    by auto
  with a h4 h5 demo_new demo_stack show ?thesis by simp
qed

text \<open>The counterexample to claim C9 as it is worded. Response 7 already carries a
  Writer when a second Writer is made for it; \<open>Close\<close> on the second, with nothing
  written, ends with two calls of the formatter, both with the empty body, and two lines
  in the log.\<close>

theorem Close_without_Write_counterexample:
  "NewWriter 7 8 demo_formatter demo_installed = Inr (1, demo_twice_started) \<and>
   Close 1 demo_twice_started =
     Some (Inr (Some (Error ''close failed''), demo_twice_closed_unwritten)) \<and>
   formatter_calls demo_twice_started = [] \<and> access_log demo_twice_started = [] \<and>
   formatter_calls demo_twice_closed_unwritten = [(1000, 7, 8, []), (1000, 7, 8, [])] \<and>
   access_log demo_twice_closed_unwritten =
     [demo_formatter 1000 7 8 [], demo_formatter 1000 7 8 []] \<and>
   length (access_log demo_twice_closed_unwritten) = 2"
  by (simp add: demo_defs world_defs Close.simps)

text \<open>
  Claim C10. A call of \<open>Write\<close> on the Writer at \<open>p\<close> that comes back, returning or
  panicking, leaves the fields \<open>now\<close>, \<open>request\<close>, \<open>writer\<close>, \<open>response\<close> and
  \<open>formatter\<close> of that Writer as they were; and the call does come back when the stack
  of Writers under \<open>p\<close> is finite.
\<close>

theorem Write_changes_only_body:
  assumes "writer_at s p = Some w"
  shows "(\<forall>y. Write p b s = Some y \<longrightarrow>
            (\<exists>w'. writer_at (after y) p = Some w' \<and>
               now w' = now w \<and> request w' = request w \<and> writer w' = writer w \<and>
               response w' = response w \<and> formatter w' = formatter w)) \<and>
         (\<forall>n e. stack (link s) p n e \<longrightarrow> (\<exists>y. Write p b s = Some y))"
proof -
  have "\<exists>w'. writer_at (after y) p = Some w' \<and>
               now w' = now w \<and> request w' = request w \<and> writer w' = writer w \<and>
               response w' = response w \<and> formatter w' = formatter w"
    if "Write p b s = Some y" for y
    using Write_self [OF assms that] by simp
  moreover have "\<exists>y. Write p b s = Some y" if "stack (link s) p n e" for n e
    using Write_returns [OF that refl] .
  ultimately show ?thesis by blast
qed

theorem Write_changes_only_body_witness:
  "writer_at demo_started 0 = Some (demo_writer (SinkRef 3)) \<and>
   stack (link demo_started) 0 1 (SinkRef 3) \<and>
   Write 0 [1, 2] demo_started = Some (Inr ((2, None), demo_written_once)) \<and>
   (\<exists>w'. writer_at demo_written_once 0 = Some w' \<and>
      now w' = now (demo_writer (SinkRef 3)) \<and> request w' = request (demo_writer (SinkRef 3)) \<and>
      writer w' = writer (demo_writer (SinkRef 3)) \<and>
      response w' = response (demo_writer (SinkRef 3)) \<and>
      formatter w' = formatter (demo_writer (SinkRef 3)))"
proof -
  have h1: "writer_at demo_started 0 = Some (demo_writer (SinkRef 3))"
    by (simp add: demo_defs world_defs)
  from Write_changes_only_body [OF h1, of "[1, 2]"] demo_write
  have "\<exists>w'. writer_at (after (Inr ((2::int, None::error option), demo_written_once))) 0 = Some w' \<and>
      now w' = now (demo_writer (SinkRef 3)) \<and> request w' = request (demo_writer (SinkRef 3)) \<and>
      writer w' = writer (demo_writer (SinkRef 3)) \<and>
      response w' = response (demo_writer (SinkRef 3)) \<and>
      formatter w' = formatter (demo_writer (SinkRef 3))"
    by blast
  with h1 demo_stack demo_write show ?thesis by simp
qed

end
